theory Spec2Isabelle
  imports Complex_Main
begin

section \<open>Tensors and their storage\<close>

text \<open>
  The tutorial's own code is the class \<open>FooBarPruningMethod\<close> with its method
  \<open>compute_mask\<close> (lines 357-365 of \<open>pruning_tutorial.py\<close>):
  \<^verbatim>\<open>
    def compute_mask(self, t, default_mask):
        mask = default_mask.clone()
        mask.view(-1)[::2] = 0
        return mask
  \<close>
  It clones a tensor and then writes through a flattened view of the clone, so the model
  keeps tensors apart from their storage: a tensor is a handle (its shape and the address
  of its storage) and the memory maps every address to the flat, row-major list of the
  entries stored there. Tensors are contiguous and own their whole storage, as the masks
  of the tutorial are. The entry type is left open; \<open>0\<close> is all that \<open>compute_mask\<close>
  ever writes.
\<close>

type_synonym addr = nat

record tensor =
  shape :: "nat list"
  data_ptr :: addr

record 'a memory =
  cells :: "addr \<Rightarrow> 'a list"
  next_addr :: addr

definition numel :: "tensor \<Rightarrow> nat" where
  "numel x = prod_list (shape x)"

definition contents :: "'a memory \<Rightarrow> tensor \<Rightarrow> 'a list" where
  "contents h x = cells h (data_ptr x)"

text \<open>A tensor of the memory: its storage is allocated and holds one entry per position.\<close>

definition valid :: "'a memory \<Rightarrow> tensor \<Rightarrow> bool" where
  "valid h x = (data_ptr x < next_addr h \<and> length (cells h (data_ptr x)) = numel x)"

text \<open>\<open>x.clone()\<close>: a new tensor of the same shape on fresh storage holding a copy.\<close>

definition clone :: "tensor \<Rightarrow> 'a memory \<Rightarrow> tensor \<times> 'a memory" where
  "clone x h =
     (x\<lparr>data_ptr := next_addr h\<rparr>,
      h\<lparr>cells := (cells h)(next_addr h := cells h (data_ptr x)),
        next_addr := Suc (next_addr h)\<rparr>)"

text \<open>\<open>x.view(-1)\<close>: a one-dimensional tensor on the same storage.\<close>

definition view_flat :: "tensor \<Rightarrow> tensor" where
  "view_flat x = x\<lparr>shape := [numel x]\<rparr>"

text \<open>
  \<open>v[::step] = c\<close> on a one-dimensional tensor \<open>v\<close>: the positions \<open>0, step, 2 * step, ...\<close>
  below the length of \<open>v\<close> are overwritten by \<open>c\<close>, one after the other, in the storage
  of \<open>v\<close>.
\<close>

definition slice_indices :: "nat \<Rightarrow> nat \<Rightarrow> nat list" where
  "slice_indices n step = filter (\<lambda>i. i mod step = 0) [0..<n]"

definition fill_indices :: "nat list \<Rightarrow> 'a \<Rightarrow> 'a list \<Rightarrow> 'a list" where
  "fill_indices js c xs = fold (\<lambda>i ys. ys[i := c]) js xs"

definition setitem_step :: "tensor \<Rightarrow> nat \<Rightarrow> 'a \<Rightarrow> 'a memory \<Rightarrow> 'a memory" where
  "setitem_step v step c h =
     h\<lparr>cells := (cells h)(data_ptr v :=
          fill_indices (slice_indices (numel v) step) c (cells h (data_ptr v)))\<rparr>"

section \<open>The custom pruning method\<close>

text \<open>
  \<open>FooBarPruningMethod.compute_mask(t, default_mask)\<close>. The argument \<open>t\<close> (the values of
  the parameter) is received and never read.
\<close>

definition compute_mask :: "tensor \<Rightarrow> tensor \<Rightarrow> ('a::zero) memory \<Rightarrow> tensor \<times> 'a memory" where
  "compute_mask t default_mask h =
     (let (mask, h1) = clone default_mask h;
          h2 = setitem_step (view_flat mask) 2 0 h1
      in (mask, h2))"

section \<open>Masks\<close>

text \<open>
  A mask is binary: \<open>1\<close> keeps an entry and \<open>0\<close> prunes it.
\<close>

definition is_mask :: "('a::zero_neq_one) list \<Rightarrow> bool" where
  "is_mask m = list_all (\<lambda>x. x = 0 \<or> x = 1) m"

section \<open>The mask composition engine of the specification\<close>

text \<open>
  The tutorial calls \<open>prune.l1_unstructured\<close> and \<open>prune.global_unstructured\<close> of the
  library \<open>torch.nn.utils.prune\<close>; their code is not part of the tutorial. The
  specification describes them as the operations \<open>apply_unstructured\<close> and \<open>apply_global\<close>
  of a mask composition engine, and the definitions of this section follow its words
  (section 4.1 and section 7). They work on flattened tensors: a snapshot is the list of
  the values and a mask the list of the entries \<open>0\<close> and \<open>1\<close>.
\<close>

text \<open>
  Modelled from the spec: the \<open>amount\<close> argument, missing with the library. It is
  "either a fraction in [0,1] (of still-unpruned entries) or a non-negative count of
  entries to newly prune". The fraction is an exact rational number; floating point is
  not modelled.
\<close>

datatype amount = Fraction rat | Count int

text \<open>
  Modelled from the spec: the errors and the warning of section 7 that the two
  operations can give.
\<close>

datatype error = InvalidAmount | ShapeMismatch

datatype warning = EmptyActiveSet

text \<open>
  Modelled from the spec: the \<open>round\<close> of \<open>k = round(amount * num_active)\<close>. The
  specification leaves the rounding mode open; this is the built-in \<open>round\<close> of Python,
  which rounds to the nearest integer and a tie to the even neighbour.
\<close>

definition py_round :: "rat \<Rightarrow> int" where
  "py_round x =
     (let f = \<lfloor>x\<rfloor>; d = x - of_int f
      in if d < 1 / 2 then f
         else if 1 / 2 < d then f + 1
         else if even f then f else f + 1)"

text \<open>
  Modelled from the spec: \<open>InvalidAmount\<close> is "fractional amount outside [0,1], or
  negative integer amount".
\<close>

fun valid_amount :: "amount \<Rightarrow> bool" where
  "valid_amount (Fraction a) = (0 \<le> a \<and> a \<le> 1)"
| "valid_amount (Count c) = (0 \<le> c)"

text \<open>
  Modelled from the spec: "\<open>k = round(amount * num_active)\<close> if amount is fractional,
  else \<open>k = amount\<close>, clipped to \<open>num_active\<close>", and the clipping of an integer amount
  that exceeds the active count, which gives the warning.
\<close>

fun num_to_prune :: "amount \<Rightarrow> nat \<Rightarrow> nat" where
  "num_to_prune (Fraction a) n = nat (py_round (a * of_nat n))"
| "num_to_prune (Count c) n = min (nat c) n"

fun clipped :: "amount \<Rightarrow> nat \<Rightarrow> bool" where
  "clipped (Fraction a) n = False"
| "clipped (Count c) n = (int n < c)"

text \<open>
  Modelled from the spec: the still-active entries are those "where \<open>current_mask == 1\<close>".
\<close>

definition active_positions :: "('m::zero_neq_one) list \<Rightarrow> nat list" where
  "active_positions m = filter (\<lambda>i. m ! i = 1) [0..<length m]"

definition num_active :: "('m::zero_neq_one) list \<Rightarrow> nat" where
  "num_active m = length (active_positions m)"

text \<open>
  Modelled from the spec: the choice of "the \<open>k\<close> lowest-scoring still-active entries".
  The candidates are sorted by score with a stable sort, so that the lowest index wins
  among equal scores (the tie-break the specification names in its design notes), and
  the first \<open>k\<close> are taken.
\<close>

definition lowest_scoring :: "('a \<Rightarrow> 's::linorder) \<Rightarrow> 'a list \<Rightarrow> nat list \<Rightarrow> nat \<Rightarrow> nat list" where
  "lowest_scoring score_fn snapshot candidates k =
     take k (sort_key (\<lambda>i. score_fn (snapshot ! i)) candidates)"

text \<open>
  Modelled from the spec: \<open>apply_unstructured(snapshot, current_mask, amount, score_fn)\<close>,
  whose code is in the library. A snapshot and a mask of different sizes are a
  \<open>ShapeMismatch\<close>, an amount out of range is an \<open>InvalidAmount\<close>; otherwise the "new
  mask = current_mask with those \<open>k\<close> positions set to 0", with the warning when the
  amount was clipped. The specification does not order the two checks; the shape is
  checked first here.
\<close>

definition apply_unstructured ::
  "'a list \<Rightarrow> ('m::zero_neq_one) list \<Rightarrow> amount \<Rightarrow> ('a \<Rightarrow> 's::linorder) \<Rightarrow>
   error + ('m list \<times> warning list)" where
  "apply_unstructured snapshot current_mask amt score_fn =
     (if length snapshot \<noteq> length current_mask then Inl ShapeMismatch
      else if \<not> valid_amount amt then Inl InvalidAmount
      else
        let k = num_to_prune amt (num_active current_mask);
            chosen = lowest_scoring score_fn snapshot (active_positions current_mask) k
        in Inr (fill_indices chosen 0 current_mask,
                if clipped amt (num_active current_mask) then [EmptyActiveSet] else []))"

text \<open>
  The number of entries that a step newly prunes: active in the old mask, \<open>0\<close> in the
  new one.
\<close>

definition newly_pruned :: "('m::zero_neq_one) list \<Rightarrow> 'm list \<Rightarrow> nat" where
  "newly_pruned old new = length (filter (\<lambda>(x, y). x = 1 \<and> y = 0) (zip old new))"

text \<open>
  Modelled from the spec: \<open>apply_global(parameter_list, amount, score_fn)\<close>, whose code is
  in the library. The input is a list of triples (parameter identity, snapshot, current
  mask). All tensors are concatenated into one pool, in the order of the list; the
  lowest-scoring \<open>k = round(amount * total_active)\<close> active entries of the pool are
  zeroed, as \<open>apply_unstructured\<close> does on one tensor; the pooled mask is cut back into
  one mask per tensor, so that every entry returns to the tensor and position it came
  from. The amount is the fraction of the specification's formula.
\<close>

fun unconcat :: "nat list \<Rightarrow> 'a list \<Rightarrow> 'a list list" where
  "unconcat [] xs = []"
| "unconcat (n # ns) xs = take n xs # unconcat ns (drop n xs)"

definition apply_global ::
  "('p \<times> 'a list \<times> ('m::zero_neq_one) list) list \<Rightarrow> rat \<Rightarrow> ('a \<Rightarrow> 's::linorder) \<Rightarrow>
   error + (('p \<times> 'm list) list \<times> warning list)" where
  "apply_global parameter_list a score_fn =
     (if list_ex (\<lambda>(p, s, m). length s \<noteq> length m) parameter_list then Inl ShapeMismatch
      else
        let pool_values = concat (map (\<lambda>(p, s, m). s) parameter_list);
            pool_mask = concat (map (\<lambda>(p, s, m). m) parameter_list)
        in case apply_unstructured pool_values pool_mask (Fraction a) score_fn of
             Inl e \<Rightarrow> Inl e
           | Inr (new_pool, ws) \<Rightarrow>
               Inr (zip (map (\<lambda>(p, s, m). p) parameter_list)
                        (unconcat (map (\<lambda>(p, s, m). length m) parameter_list) new_pool),
                    ws))"

definition total_active :: "('p \<times> 'a list \<times> ('m::zero_neq_one) list) list \<Rightarrow> nat" where
  "total_active parameter_list = sum_list (map (\<lambda>(p, s, m). num_active m) parameter_list)"

section \<open>Sample inputs\<close>

text \<open>
  A memory with three tensors of five entries each: a mask with one entry already pruned
  at address 0, and two different value tensors at addresses 2 and 3.
\<close>

definition sample_memory :: "int memory" where
  "sample_memory =
     \<lparr>cells = (\<lambda>_. [])(0 := [1, 0, 1, 1, 1], 2 := [3, - 4, 5, 6, 7], 3 := [9, 9, 9, 9, 9]),
      next_addr = 4\<rparr>"

definition sample_mask :: tensor where
  "sample_mask = \<lparr>shape = [5], data_ptr = 0\<rparr>"

definition sample_values :: tensor where
  "sample_values = \<lparr>shape = [5], data_ptr = 2\<rparr>"

definition other_values :: tensor where
  "other_values = \<lparr>shape = [5], data_ptr = 3\<rparr>"

text \<open>
  One call of the custom method on the sample mask.
\<close>

definition first_call :: "tensor \<times> int memory" where
  "first_call = compute_mask sample_values sample_mask sample_memory"

text \<open>
  Inputs for the engine: the six values of the specification's scenario, a mask with
  one entry pruned before, and two ways to split ten pooled entries over two tensors
  (sizes 4 and 6, sizes 7 and 3).
\<close>

definition scenario_values :: "int list" where
  "scenario_values = [5, 1, 4, 2, 6, 3]"

definition pruned_once :: "int list" where
  "pruned_once = [1, 0, 1, 1, 1, 1]"

definition two_tensors :: "(string \<times> int list \<times> int list) list" where
  "two_tensors =
     [(''conv'', [5, 1, 4, 2], [1, 1, 1, 1]), (''fc'', [9, 8, 7, 6, 0, 3], [1, 1, 1, 1, 1, 1])]"

definition other_partition :: "(string \<times> int list \<times> int list) list" where
  "other_partition =
     [(''conv'', [5, 1, 4, 2, 9, 8, 7], [1, 1, 1, 1, 1, 1, 1]), (''fc'', [6, 0, 3], [1, 1, 1])]"

section \<open>Properties of the custom pruning method\<close>

lemma length_fill_indices [simp]: "length (fill_indices js c xs) = length xs"
  unfolding fill_indices_def by (induction js arbitrary: xs) simp_all

lemma nth_fill_indices:
  "j < length xs \<Longrightarrow> fill_indices js c xs ! j = (if j \<in> set js then c else xs ! j)"
  unfolding fill_indices_def
proof (induction js arbitrary: xs)
  case Nil
  then show ?case by simp
next
  case (Cons i js)
  have len: "j < length (xs[i := c])" using Cons.prems by simp
  show ?case
    using Cons.IH [OF len] Cons.prems by (auto simp: nth_list_update)
qed

lemma set_slice_indices: "set (slice_indices n step) = {i. i < n \<and> i mod step = 0}"
  by (auto simp: slice_indices_def)

lemma nth_zero_every_other:
  "i < length xs \<Longrightarrow> length xs = n \<Longrightarrow>
   fill_indices (slice_indices n 2) 0 xs ! i = (if even i then 0 else xs ! i)"
  by (auto simp: nth_fill_indices set_slice_indices)

lemma compute_mask_unfold:
  "compute_mask t dm h =
     (dm\<lparr>data_ptr := next_addr h\<rparr>,
      h\<lparr>cells := (cells h)(next_addr h :=
            fill_indices (slice_indices (numel dm) 2) 0 (cells h (data_ptr dm))),
        next_addr := Suc (next_addr h)\<rparr>)"
  by (simp add: compute_mask_def clone_def setitem_step_def view_flat_def numel_def)

lemma compute_mask_contents:
  "contents (snd (compute_mask t dm h)) (fst (compute_mask t dm h)) =
     fill_indices (slice_indices (numel dm) 2) 0 (contents h dm)"
  by (simp add: compute_mask_unfold contents_def)

lemma compute_mask_frame:
  "data_ptr x < next_addr h \<Longrightarrow> contents (snd (compute_mask t dm h)) x = contents h x"
  by (simp add: compute_mask_unfold contents_def)

lemma valid_sample_mask: "valid sample_memory sample_mask"
  by (simp add: valid_def sample_memory_def sample_mask_def numel_def)

lemma contents_sample_mask: "contents sample_memory sample_mask = [1, 0, 1, 1, 1]"
  by (simp add: contents_def sample_memory_def sample_mask_def)

lemma upt_sample_mask: "[0..<numel sample_mask] = [0, 1, 2, 3, 4]"
  unfolding sample_mask_def by code_simp

lemma numel_sample_mask: "numel sample_mask = 5"
  by (simp add: sample_mask_def numel_def)

lemma is_mask_sample_mask: "is_mask (contents sample_memory sample_mask)"
  by (simp add: contents_sample_mask is_mask_def)

lemma contents_first_call: "contents (snd first_call) (fst first_call) = [0, 0, 0, 1, 0]"
  unfolding first_call_def compute_mask_contents contents_sample_mask numel_sample_mask
  by code_simp

text \<open>
  Claim C7. The \<open>compute_mask\<close> of the custom pruning method honours the composition
  contract for every value tensor and every current mask of the memory: the mask it
  returns has the shape of the current mask, an entry that is \<open>0\<close> in the current mask
  is \<open>0\<close> in the new one (nothing is set back to \<open>1\<close>), and an entry of the new mask
  that differs from the current one was not \<open>0\<close> before and is \<open>0\<close> now (only active
  entries are newly zeroed). On a binary mask the result is binary again and every entry
  that changed was \<open>1\<close>: the rule acts on the unpruned portion only. The custom method
  is the one pruning technique whose \<open>compute_mask\<close> is part of the tutorial; the
  techniques of the library are not.
\<close>

theorem compute_mask_contract:
  assumes "valid h default_mask" and "compute_mask t default_mask h = (new_mask, h')"
  shows "shape new_mask = shape default_mask
   \<and> (\<forall>i<numel default_mask. contents h default_mask ! i = 0 \<longrightarrow> contents h' new_mask ! i = 0)
   \<and> (\<forall>i<numel default_mask. contents h' new_mask ! i \<noteq> contents h default_mask ! i \<longrightarrow>
         contents h default_mask ! i \<noteq> 0 \<and> contents h' new_mask ! i = 0)
   \<and> (is_mask (contents h default_mask) \<longrightarrow>
         is_mask (contents h' new_mask) \<and>
         (\<forall>i<numel default_mask. contents h' new_mask ! i \<noteq> contents h default_mask ! i \<longrightarrow>
            contents h default_mask ! i = 1))"
proof -
  have len: "length (contents h default_mask) = numel default_mask"
    using assms(1) by (simp add: valid_def contents_def)
  have m: "new_mask = fst (compute_mask t default_mask h)" and h': "h' = snd (compute_mask t default_mask h)"
    using assms(2) by simp_all
  have c: "contents h' new_mask = fill_indices (slice_indices (numel default_mask) 2) 0 (contents h default_mask)"
    unfolding m h' by (rule compute_mask_contents)
  have nth: "\<And>i. i < numel default_mask \<Longrightarrow>
      contents h' new_mask ! i = (if even i then 0 else contents h default_mask ! i)"
    unfolding c using len by (simp add: nth_zero_every_other)
  have s: "shape new_mask = shape default_mask"
    unfolding m by (simp add: compute_mask_unfold)
  have a: "\<forall>i<numel default_mask. contents h default_mask ! i = 0 \<longrightarrow> contents h' new_mask ! i = 0"
    by (simp add: nth)
  have b: "\<forall>i<numel default_mask. contents h' new_mask ! i \<noteq> contents h default_mask ! i \<longrightarrow>
         contents h default_mask ! i \<noteq> 0 \<and> contents h' new_mask ! i = 0"
    by (auto simp: nth split: if_splits)
  have d: "is_mask (contents h default_mask) \<longrightarrow>
         is_mask (contents h' new_mask) \<and>
         (\<forall>i<numel default_mask. contents h' new_mask ! i \<noteq> contents h default_mask ! i \<longrightarrow>
            contents h default_mask ! i = 1)"
  proof
    assume bin: "is_mask (contents h default_mask)"
    then have e: "\<And>i. i < numel default_mask \<Longrightarrow>
        contents h default_mask ! i = 0 \<or> contents h default_mask ! i = 1"
      using len by (simp add: is_mask_def list_all_length)
    have "length (contents h' new_mask) = numel default_mask"
      unfolding c using len by simp
    then have "is_mask (contents h' new_mask)"
      using e by (auto simp: is_mask_def list_all_length nth)
    moreover have "\<forall>i<numel default_mask. contents h' new_mask ! i \<noteq> contents h default_mask ! i \<longrightarrow>
            contents h default_mask ! i = 1"
      using e by (auto simp: nth split: if_splits)
    ultimately show "is_mask (contents h' new_mask) \<and>
         (\<forall>i<numel default_mask. contents h' new_mask ! i \<noteq> contents h default_mask ! i \<longrightarrow>
            contents h default_mask ! i = 1)" by simp
  qed
  show ?thesis using s a b d by blast
qed

theorem compute_mask_contract_witness:
  "valid sample_memory sample_mask
   \<and> is_mask (contents sample_memory sample_mask)
   \<and> contents sample_memory sample_mask ! 1 = 0
   \<and> contents (snd first_call) (fst first_call) ! 1 = 0
   \<and> contents (snd first_call) (fst first_call) ! 0 \<noteq> contents sample_memory sample_mask ! 0
   \<and> contents sample_memory sample_mask ! 0 = 1
   \<and> contents (snd first_call) (fst first_call) ! 0 = 0
   \<and> is_mask (contents (snd first_call) (fst first_call))"
proof -
  have call: "compute_mask sample_values sample_mask sample_memory = (fst first_call, snd first_call)"
    by (simp add: first_call_def)
  note T = compute_mask_contract [OF valid_sample_mask call]
  have old1: "contents sample_memory sample_mask ! 1 = 0"
    by (simp add: contents_sample_mask)
  have diff0: "contents (snd first_call) (fst first_call) ! 0 \<noteq> contents sample_memory sample_mask ! 0"
    by (simp add: contents_sample_mask contents_first_call)
  have new1: "contents (snd first_call) (fst first_call) ! 1 = 0"
    using T old1 by (simp add: numel_sample_mask)
  have at0: "contents sample_memory sample_mask ! 0 = 1 \<and> contents (snd first_call) (fst first_call) ! 0 = 0"
    using T diff0 is_mask_sample_mask by (simp add: numel_sample_mask)
  have bin: "is_mask (contents (snd first_call) (fst first_call))"
    using T is_mask_sample_mask by blast
  show ?thesis
    using valid_sample_mask is_mask_sample_mask old1 new1 diff0 at0 bin by blast
qed

text \<open>
  Claim C10. \<open>compute_mask\<close> does not depend on the values \<open>t\<close>: called on the same
  \<open>default_mask\<close> in the same memory, two calls with any two value tensors \<open>t1\<close> and \<open>t2\<close>
  (of the same shape or not) return the same tensor and leave the same memory. The
  returned mask has the shape of \<open>default_mask\<close> and lives on storage of its own, the
  entries of \<open>default_mask\<close> are what they were before the call, and the returned mask
  holds \<open>0\<close> at every even flattened index and the entry of \<open>default_mask\<close> at every odd
  one.
\<close>

theorem compute_mask_ignores_values:
  assumes "valid h default_mask"
  shows "compute_mask t1 default_mask h = compute_mask t2 default_mask h
    \<and> shape (fst (compute_mask t1 default_mask h)) = shape default_mask
    \<and> data_ptr (fst (compute_mask t1 default_mask h)) \<noteq> data_ptr default_mask
    \<and> contents (snd (compute_mask t1 default_mask h)) default_mask = contents h default_mask
    \<and> contents (snd (compute_mask t1 default_mask h)) (fst (compute_mask t1 default_mask h)) =
        map (\<lambda>i. if even i then 0 else contents h default_mask ! i) [0..<numel default_mask]"
proof -
  have len: "length (contents h default_mask) = numel default_mask"
    using assms by (simp add: valid_def contents_def)
  have ptr: "data_ptr default_mask < next_addr h"
    using assms by (simp add: valid_def)
  have "contents (snd (compute_mask t1 default_mask h)) (fst (compute_mask t1 default_mask h)) =
        map (\<lambda>i. if even i then 0 else contents h default_mask ! i) [0..<numel default_mask]"
    unfolding compute_mask_contents
    by (rule nth_equalityI) (simp_all add: len nth_zero_every_other)
  moreover have "compute_mask t1 default_mask h = compute_mask t2 default_mask h"
    by (simp add: compute_mask_unfold)
  moreover have "data_ptr (fst (compute_mask t1 default_mask h)) \<noteq> data_ptr default_mask"
    using ptr by (simp add: compute_mask_unfold)
  moreover have "shape (fst (compute_mask t1 default_mask h)) = shape default_mask"
    by (simp add: compute_mask_unfold)
  ultimately show ?thesis
    using compute_mask_frame [OF ptr] by simp
qed

theorem compute_mask_ignores_values_witness:
  "valid sample_memory sample_mask
   \<and> compute_mask sample_values sample_mask sample_memory
     = compute_mask other_values sample_mask sample_memory
   \<and> contents (snd (compute_mask sample_values sample_mask sample_memory)) sample_mask
     = [1, 0, 1, 1, 1]
   \<and> contents (snd (compute_mask sample_values sample_mask sample_memory))
        (fst (compute_mask sample_values sample_mask sample_memory))
     = [0, 0, 0, 1, 0]"
proof -
  note T = compute_mask_ignores_values [OF valid_sample_mask, of sample_values other_values]
  have a: "compute_mask sample_values sample_mask sample_memory
     = compute_mask other_values sample_mask sample_memory"
    using T by (rule conjunct1)
  have b: "contents (snd (compute_mask sample_values sample_mask sample_memory)) sample_mask
     = [1, 0, 1, 1, 1]"
    using T contents_sample_mask by metis
  have d: "contents (snd (compute_mask sample_values sample_mask sample_memory))
        (fst (compute_mask sample_values sample_mask sample_memory))
     = map (\<lambda>i. if even i then 0 else [1, 0, 1, 1, 1] ! i) [0, 1, 2, 3, 4]"
    using T unfolding contents_sample_mask upt_sample_mask by (elim conjE)
  show ?thesis
    using valid_sample_mask a b d by simp
qed

section \<open>Properties of the mask composition engine\<close>

lemma py_round_nonneg: "0 \<le> x \<Longrightarrow> 0 \<le> py_round x"
  by (auto simp: py_round_def Let_def)

lemma py_round_le:
  assumes "x \<le> of_int n"
  shows "py_round x \<le> n"
proof -
  have fl: "\<lfloor>x\<rfloor> \<le> n" using assms by (simp add: floor_le_iff)
  show ?thesis
  proof (cases "x - of_int \<lfloor>x\<rfloor> < 1 / 2")
    case True
    then show ?thesis using fl by (simp add: py_round_def Let_def)
  next
    case False
    then have "of_int \<lfloor>x\<rfloor> < x" by linarith
    then have "of_int \<lfloor>x\<rfloor> < (of_int n :: rat)" using assms by linarith
    then have "\<lfloor>x\<rfloor> < n" by simp
    then show ?thesis by (auto simp: py_round_def Let_def)
  qed
qed

lemma num_to_prune_le: "valid_amount amt \<Longrightarrow> num_to_prune amt n \<le> n"
proof (cases amt)
  case (Fraction a)
  assume "valid_amount amt"
  then have a: "0 \<le> a" "a \<le> 1" using Fraction by simp_all
  have "a * of_nat n \<le> 1 * of_nat n"
    using a by (intro mult_right_mono) simp_all
  then have "a * of_nat n \<le> of_int (int n)" by simp
  then have "py_round (a * of_nat n) \<le> int n" by (rule py_round_le)
  then show ?thesis using Fraction by simp
next
  case (Count c)
  then show ?thesis by simp
qed

lemma distinct_active_positions: "distinct (active_positions m)"
  by (simp add: active_positions_def)

lemma set_active_positions: "set (active_positions m) = {i. i < length m \<and> m ! i = 1}"
  by (auto simp: active_positions_def)

lemma distinct_lowest_scoring:
  "distinct cands \<Longrightarrow> distinct (lowest_scoring f s cands k)"
  by (simp add: lowest_scoring_def)

lemma set_lowest_scoring_subset: "set (lowest_scoring f s cands k) \<subseteq> set cands"
  unfolding lowest_scoring_def using set_take_subset [of k "sort_key (\<lambda>i. f (s ! i)) cands"]
  by simp

lemma length_lowest_scoring:
  "k \<le> length cands \<Longrightarrow> length (lowest_scoring f s cands k) = k"
  by (simp add: lowest_scoring_def)

lemma lowest_scoring_least:
  assumes "distinct cands" and "i \<in> set (lowest_scoring f s cands k)"
    and "j \<in> set cands" and "j \<notin> set (lowest_scoring f s cands k)"
  shows "f (s ! i) \<le> f (s ! j)"
proof -
  define ys where "ys = sort_key (\<lambda>i. f (s ! i)) cands"
  have srt: "sorted (map (\<lambda>i. f (s ! i)) (take k ys @ drop k ys))"
    unfolding ys_def by simp
  have i: "i \<in> set (take k ys)"
    using assms(2) by (simp add: lowest_scoring_def ys_def)
  have "j \<in> set ys" using assms(3) by (simp add: ys_def)
  then have "j \<in> set (take k ys) \<union> set (drop k ys)"
    by (metis append_take_drop_id set_append)
  then have j: "j \<in> set (drop k ys)"
    using assms(4) by (simp add: lowest_scoring_def ys_def)
  show ?thesis
    using srt i j unfolding map_append sorted_append by auto
qed

lemma newly_pruned_card:
  assumes "length old = length new"
  shows "newly_pruned old new = card {i. i < length old \<and> old ! i = 1 \<and> new ! i = 0}"
proof -
  have "{i. i < length (zip old new) \<and> (case zip old new ! i of (x, y) \<Rightarrow> x = 1 \<and> y = 0)} =
        {i. i < length old \<and> old ! i = 1 \<and> new ! i = 0}"
    using assms by auto
  then show ?thesis
    by (simp add: newly_pruned_def length_filter_conv_card)
qed

lemma newly_pruned_fill:
  assumes "distinct js" and "set js \<subseteq> set (active_positions m)"
  shows "newly_pruned m (fill_indices js 0 m) = length js"
proof -
  have "{i. i < length m \<and> m ! i = 1 \<and> fill_indices js 0 m ! i = 0} = set js"
    using assms(2) by (auto simp: nth_fill_indices set_active_positions split: if_splits)
  then show ?thesis
    using assms(1) by (simp add: newly_pruned_card distinct_card)
qed

lemma apply_unstructured_result:
  assumes "length snapshot = length current_mask" and "valid_amount amt"
  shows "\<exists>new_mask ws.
      apply_unstructured snapshot current_mask amt score_fn = Inr (new_mask, ws)
    \<and> length new_mask = length current_mask
    \<and> (\<forall>i<length current_mask.
          new_mask ! i = current_mask ! i \<or> (current_mask ! i = 1 \<and> new_mask ! i = 0))
    \<and> newly_pruned current_mask new_mask = num_to_prune amt (num_active current_mask)
    \<and> (\<forall>i<length current_mask. \<forall>j<length current_mask.
          current_mask ! i = 1 \<and> new_mask ! i = 0 \<and> new_mask ! j = 1 \<longrightarrow>
          score_fn (snapshot ! i) \<le> score_fn (snapshot ! j))"
proof -
  define act where "act = active_positions current_mask"
  define k where "k = num_to_prune amt (num_active current_mask)"
  define chosen where "chosen = lowest_scoring score_fn snapshot act k"
  define new_mask where "new_mask = fill_indices chosen 0 current_mask"
  define ws where "ws = (if clipped amt (num_active current_mask) then [EmptyActiveSet] else [])"
  have res: "apply_unstructured snapshot current_mask amt score_fn = Inr (new_mask, ws)"
    using assms by (simp add: apply_unstructured_def Let_def new_mask_def chosen_def k_def
        act_def ws_def)
  have k_le: "k \<le> length act"
    unfolding k_def act_def num_active_def using assms(2) by (rule num_to_prune_le)
  have dist: "distinct chosen"
    unfolding chosen_def act_def by (intro distinct_lowest_scoring distinct_active_positions)
  have sub: "set chosen \<subseteq> set (active_positions current_mask)"
    unfolding chosen_def act_def by (rule set_lowest_scoring_subset)
  have len: "length new_mask = length current_mask"
    by (simp add: new_mask_def)
  have nth: "\<And>i. i < length current_mask \<Longrightarrow>
      new_mask ! i = (if i \<in> set chosen then 0 else current_mask ! i)"
    by (simp add: new_mask_def nth_fill_indices)
  have step: "\<forall>i<length current_mask.
      new_mask ! i = current_mask ! i \<or> (current_mask ! i = 1 \<and> new_mask ! i = 0)"
    using sub by (auto simp: nth set_active_positions)
  have count: "newly_pruned current_mask new_mask = k"
    unfolding new_mask_def using newly_pruned_fill [OF dist sub] k_le
    by (simp add: chosen_def length_lowest_scoring)
  have low: "\<forall>i<length current_mask. \<forall>j<length current_mask.
      current_mask ! i = 1 \<and> new_mask ! i = 0 \<and> new_mask ! j = 1 \<longrightarrow>
      score_fn (snapshot ! i) \<le> score_fn (snapshot ! j)"
  proof (intro allI impI)
    fix i j
    assume i: "i < length current_mask" and j: "j < length current_mask"
      and h: "current_mask ! i = 1 \<and> new_mask ! i = 0 \<and> new_mask ! j = 1"
    have ic: "i \<in> set chosen"
      using h i nth [of i] by (auto split: if_splits)
    have jn: "j \<notin> set chosen"
      using h j nth [of j] by (auto split: if_splits)
    then have "current_mask ! j = 1" using h j nth [of j] by simp
    then have ja: "j \<in> set act"
      using j by (simp add: act_def set_active_positions)
    show "score_fn (snapshot ! i) \<le> score_fn (snapshot ! j)"
      using lowest_scoring_least [of act i score_fn snapshot k j] ic jn ja
      by (simp add: chosen_def act_def distinct_active_positions)
  qed
  show ?thesis
    using res len step count low unfolding k_def by blast
qed

lemma length_unconcat [simp]: "length (unconcat ns xs) = length ns"
  by (induction ns arbitrary: xs) simp_all

lemma map_length_unconcat:
  "sum_list ns \<le> length xs \<Longrightarrow> map length (unconcat ns xs) = ns"
  by (induction ns arbitrary: xs) simp_all

lemma concat_unconcat:
  "sum_list ns = length xs \<Longrightarrow> concat (unconcat ns xs) = xs"
  by (induction ns arbitrary: xs) simp_all

lemma nth_unconcat:
  "sum_list ns \<le> length xs \<Longrightarrow> t < length ns \<Longrightarrow> i < ns ! t \<Longrightarrow>
   unconcat ns xs ! t ! i = xs ! (sum_list (take t ns) + i)"
proof (induction ns arbitrary: xs t)
  case Nil
  then show ?case by simp
next
  case (Cons n ns)
  show ?case
  proof (cases t)
    case 0
    then show ?thesis using Cons.prems by simp
  next
    case (Suc t')
    have "unconcat ns (drop n xs) ! t' ! i = drop n xs ! (sum_list (take t' ns) + i)"
      using Cons.prems Suc by (intro Cons.IH) simp_all
    moreover have "n + (sum_list (take t' ns) + i) \<le> length xs"
    proof -
      have "sum_list (take t' ns) + ns ! t' \<le> sum_list ns"
        using Cons.prems Suc
        by (metis Suc_less_eq length_Cons sum_list_append add_leD1 append_take_drop_id
            Cons_nth_drop_Suc sum_list.Cons le_add1 add_le_cancel_left)
      then show ?thesis using Cons.prems Suc by simp
    qed
    ultimately show ?thesis using Suc by (simp add: add.assoc)
  qed
qed

lemma nth_concat_offset:
  "t < length xss \<Longrightarrow> i < length (xss ! t) \<Longrightarrow>
   sum_list (map length (take t xss)) + i < length (concat xss) \<and>
   concat xss ! (sum_list (map length (take t xss)) + i) = xss ! t ! i"
proof (induction xss arbitrary: t)
  case Nil
  then show ?case by simp
next
  case (Cons xs xss)
  show ?case
  proof (cases t)
    case 0
    then show ?thesis using Cons.prems by (simp add: nth_append)
  next
    case (Suc t')
    then have "sum_list (map length (take t' xss)) + i < length (concat xss) \<and>
        concat xss ! (sum_list (map length (take t' xss)) + i) = xss ! t' ! i"
      using Cons.prems by (intro Cons.IH) simp_all
    then show ?thesis using Suc by (simp add: nth_append add.assoc)
  qed
qed

lemma num_active_filter: "num_active m = length (filter (\<lambda>x. x = 1) m)"
proof -
  have "{i. i < length m \<and> m ! i = 1} = {i. i < length m \<and> (\<lambda>x. x = 1) (m ! i)}" by simp
  then show ?thesis
    unfolding num_active_def
    by (simp add: distinct_card [OF distinct_active_positions, symmetric]
        set_active_positions length_filter_conv_card)
qed

lemma num_active_concat: "num_active (concat ms) = sum_list (map num_active ms)"
  by (induction ms) (simp_all add: num_active_filter)

lemma newly_pruned_append:
  "length a = length c \<Longrightarrow>
   newly_pruned (a @ b) (c @ d) = newly_pruned a c + newly_pruned b d"
  by (simp add: newly_pruned_def)

lemma newly_pruned_concat:
  "map length ms = map length ns \<Longrightarrow>
   newly_pruned (concat ms) (concat ns) = sum_list (map2 newly_pruned ms ns)"
proof (induction ms arbitrary: ns)
  case Nil
  then show ?case by (simp add: newly_pruned_def)
next
  case (Cons m ms)
  then obtain n ns' where ns: "ns = n # ns'" by (cases ns) auto
  then have "length m = length n" and "map length ms = map length ns'"
    using Cons.prems by simp_all
  then show ?case
    using Cons.IH [of ns'] by (simp add: ns newly_pruned_append)
qed

lemma pruned_once_run:
  "apply_unstructured scenario_values pruned_once (Fraction (1 / 2)) abs =
     Inr ([1, 0, 1, 0, 1, 0], [])"
  unfolding scenario_values_def pruned_once_def by code_simp

lemma two_tensors_run:
  "apply_global two_tensors (1 / 5) abs =
     Inr ([(''conv'', [1, 0, 1, 1]), (''fc'', [1, 1, 1, 1, 0, 1])], [])"
  unfolding two_tensors_def by code_simp

lemma other_partition_run:
  "apply_global other_partition (1 / 5) abs =
     Inr ([(''conv'', [1, 0, 1, 1, 1, 1, 1]), (''fc'', [1, 0, 1])], [])"
  unfolding other_partition_def by code_simp

lemma two_tensors_shapes: "list_all (\<lambda>(p, s, m). length s = length m) two_tensors"
  by (simp add: two_tensors_def)

lemma other_partition_shapes: "list_all (\<lambda>(p, s, m). length s = length m) other_partition"
  by (simp add: other_partition_def)

lemma total_active_two_tensors: "total_active two_tensors = 10"
  unfolding two_tensors_def by code_simp

lemma total_active_other_partition: "total_active other_partition = 10"
  unfolding other_partition_def by code_simp

lemma py_round_two: "nat (py_round (1 / 5 * of_nat 10)) = 2"
  by code_simp

text \<open>
  Claim C4, as amended. For a snapshot and a mask of the same size and an amount in
  range, \<open>apply_unstructured\<close> returns a new mask of the same size; every entry either
  keeps its value or was active and is now \<open>0\<close>; the number of newly pruned entries is
  exactly \<open>k\<close>, with \<open>k = round(amount * num_active)\<close> for a fractional amount and
  \<open>k = amount\<close> clipped to \<open>num_active\<close> for an integer one; and every newly pruned entry
  scores no higher than every entry that stays active. In particular, for the snapshot
  \<open>[5, 1, 4, 2, 6, 3]\<close> with the all-ones mask, amount 3 and the absolute value as
  score, the new mask is \<open>[1, 0, 1, 0, 1, 0]\<close>: the values 1, 2 and 3 stand at the
  positions 1, 3 and 5.
\<close>

theorem apply_unstructured_lowest_scoring:
  assumes "length snapshot = length current_mask" and "valid_amount amt"
  shows "(\<exists>new_mask ws.
      apply_unstructured snapshot current_mask amt score_fn = Inr (new_mask, ws)
    \<and> length new_mask = length current_mask
    \<and> (\<forall>i<length current_mask.
          new_mask ! i = current_mask ! i \<or> (current_mask ! i = 1 \<and> new_mask ! i = 0))
    \<and> newly_pruned current_mask new_mask = num_to_prune amt (num_active current_mask)
    \<and> (\<forall>i<length current_mask. \<forall>j<length current_mask.
          current_mask ! i = 1 \<and> new_mask ! i = 0 \<and> new_mask ! j = 1 \<longrightarrow>
          score_fn (snapshot ! i) \<le> score_fn (snapshot ! j)))
    \<and> num_to_prune amt (num_active current_mask) =
        (case amt of
           Fraction a \<Rightarrow> nat (py_round (a * of_nat (num_active current_mask)))
         | Count c \<Rightarrow> min (nat c) (num_active current_mask))
    \<and> apply_unstructured [5, 1, 4, 2, 6, 3 :: int] [1, 1, 1, 1, 1, 1 :: int] (Count 3) abs =
        Inr ([1, 0, 1, 0, 1, 0], [])"
proof -
  have k: "num_to_prune amt (num_active current_mask) =
        (case amt of
           Fraction a \<Rightarrow> nat (py_round (a * of_nat (num_active current_mask)))
         | Count c \<Rightarrow> min (nat c) (num_active current_mask))"
    by (cases amt) simp_all
  have scenario: "apply_unstructured [5, 1, 4, 2, 6, 3 :: int] [1, 1, 1, 1, 1, 1 :: int] (Count 3) abs =
        Inr ([1, 0, 1, 0, 1, 0], [])"
    by code_simp
  show ?thesis
    using apply_unstructured_result [OF assms, of score_fn] k scenario by blast
qed

theorem apply_unstructured_lowest_scoring_witness:
  "length scenario_values = length pruned_once
   \<and> valid_amount (Fraction (1 / 2))
   \<and> apply_unstructured scenario_values pruned_once (Fraction (1 / 2)) abs =
       Inr ([1, 0, 1, 0, 1, 0], [])
   \<and> newly_pruned pruned_once [1, 0, 1, 0, 1, 0] = 2
   \<and> num_active pruned_once = 5
   \<and> pruned_once ! 3 = 1
   \<and> \<bar>scenario_values ! 3\<bar> \<le> \<bar>scenario_values ! 0\<bar>"
proof -
  have len: "length scenario_values = length pruned_once"
    by (simp add: scenario_values_def pruned_once_def)
  have va: "valid_amount (Fraction (1 / 2))" by simp
  note T = apply_unstructured_lowest_scoring [OF len va, of abs]
  obtain new_mask ws where
    run: "apply_unstructured scenario_values pruned_once (Fraction (1 / 2)) abs = Inr (new_mask, ws)"
    and count: "newly_pruned pruned_once new_mask =
        num_to_prune (Fraction (1 / 2)) (num_active pruned_once)"
    and low: "\<forall>i<length pruned_once. \<forall>j<length pruned_once.
          pruned_once ! i = 1 \<and> new_mask ! i = 0 \<and> new_mask ! j = 1 \<longrightarrow>
          \<bar>scenario_values ! i\<bar> \<le> \<bar>scenario_values ! j\<bar>"
    using T by blast
  have nm: "new_mask = [1, 0, 1, 0, 1, 0]"
    using run pruned_once_run by simp
  have na: "num_active pruned_once = 5"
    unfolding pruned_once_def by code_simp
  have k: "num_to_prune (Fraction (1 / 2)) 5 = 2"
    by code_simp
  have c: "newly_pruned pruned_once [1, 0, 1, 0, 1, 0] = 2"
    using count nm na k by simp
  have p3: "pruned_once ! 3 = 1" by (simp add: pruned_once_def)
  have "(3::nat) < length pruned_once" and "(0::nat) < length pruned_once"
    by (simp_all add: pruned_once_def)
  moreover have "new_mask ! 3 = 0" and "new_mask ! 0 = 1"
    by (simp_all add: nm)
  ultimately have l: "\<bar>scenario_values ! 3\<bar> \<le> \<bar>scenario_values ! 0\<bar>"
    using low p3 by blast
  show ?thesis
    using len va pruned_once_run c na p3 l by blast
qed

text \<open>
  Claim C4, as stated. Its scenario fails: the result is not the mask
  \<open>[1, 0, 0, 0, 1, 1]\<close>, which would prune the positions 1, 2 and 3, holding the
  values 1, 4 and 2.
\<close>

theorem apply_unstructured_scenario_counterexample:
  "\<not> (\<exists>ws. apply_unstructured [5, 1, 4, 2, 6, 3 :: int] [1, 1, 1, 1, 1, 1 :: int] (Count 3) abs =
         Inr ([1, 0, 0, 0, 1, 1], ws))"
proof -
  have "apply_unstructured [5, 1, 4, 2, 6, 3 :: int] [1, 1, 1, 1, 1, 1 :: int] (Count 3) abs =
        Inr ([1, 0, 1, 0, 1, 0], [])"
    by code_simp
  then show ?thesis by simp
qed

text \<open>
  Claim C5. For parameters whose snapshots and masks agree in size and an amount in
  \<open>[0, 1]\<close>, \<open>apply_global\<close> returns one mask per input tensor, under the same identity
  and of the same size, and the newly pruned entries of all tensors sum to exactly
  \<open>k = round(amount * total_active)\<close>: the count is a function of the amount and of the
  total number of active entries alone, whatever their partition into tensors. The
  entries are chosen from the whole pool: a newly pruned entry of any tensor scores no
  higher than an entry that stays active in any tensor. The instance that follows runs
  tensors of sizes 4 and 6 with amount 0.2, and the same ten values split 7 and 3: two
  entries are pruned both times.
\<close>

theorem apply_global_exact_count:
  assumes shapes: "list_all (\<lambda>(p, s, m). length s = length m) parameter_list"
    and amount: "0 \<le> a" "a \<le> 1"
  shows "\<exists>res ws.
      apply_global parameter_list a score_fn = Inr (res, ws)
    \<and> map fst res = map fst parameter_list
    \<and> map (length \<circ> snd) res = map (\<lambda>(p, s, m). length m) parameter_list
    \<and> sum_list (map2 (\<lambda>(p, s, m) (q, m'). newly_pruned m m') parameter_list res) =
        nat (py_round (a * of_nat (total_active parameter_list)))
    \<and> (\<forall>t<length parameter_list. \<forall>u<length parameter_list.
        \<forall>i<length (snd (snd (parameter_list ! t))). \<forall>j<length (snd (snd (parameter_list ! u))).
          snd (snd (parameter_list ! t)) ! i = 1 \<and> snd (res ! t) ! i = 0 \<and> snd (res ! u) ! j = 1 \<longrightarrow>
          score_fn (fst (snd (parameter_list ! t)) ! i) \<le> score_fn (fst (snd (parameter_list ! u)) ! j))"
proof -
  define ids where "ids = map (\<lambda>(p, s, m). p) parameter_list"
  define ss where "ss = map (\<lambda>(p, s, m). s) parameter_list"
  define ms where "ms = map (\<lambda>(p, s, m). m) parameter_list"
  define lens where "lens = map (\<lambda>(p, s, m). length m) parameter_list"
  have lens_ms: "lens = map length ms"
    by (simp add: lens_def ms_def split_def comp_def)
  have lens_ss: "map length ss = map length ms"
    using shapes by (auto simp: ss_def ms_def list_all_iff)
  have no_mismatch: "\<not> list_ex (\<lambda>(p, s, m). length s \<noteq> length m) parameter_list"
    using shapes by (auto simp: list_ex_iff list_all_iff)
  have pool_len: "length (concat ss) = length (concat ms)"
    using lens_ss by (simp add: length_concat)
  have valid: "valid_amount (Fraction a)" using amount by simp
  obtain new_pool ws where
    run: "apply_unstructured (concat ss) (concat ms) (Fraction a) score_fn = Inr (new_pool, ws)"
    and len: "length new_pool = length (concat ms)"
    and count: "newly_pruned (concat ms) new_pool =
        num_to_prune (Fraction a) (num_active (concat ms))"
    and low: "\<forall>i<length (concat ms). \<forall>j<length (concat ms).
        concat ms ! i = 1 \<and> new_pool ! i = 0 \<and> new_pool ! j = 1 \<longrightarrow>
        score_fn (concat ss ! i) \<le> score_fn (concat ss ! j)"
    using apply_unstructured_result [OF pool_len valid, of score_fn] by blast
  define res where "res = zip ids (unconcat lens new_pool)"
  have result: "apply_global parameter_list a score_fn = Inr (res, ws)"
    using no_mismatch run
    by (simp add: apply_global_def Let_def res_def ids_def lens_def ss_def [symmetric]
        ms_def [symmetric])
  have sum_lens: "sum_list lens = length new_pool"
    by (simp add: len lens_ms length_concat)
  have len_ids: "length ids = length parameter_list"
    and len_ms: "length ms = length parameter_list"
    and len_ss: "length ss = length parameter_list"
    and len_lens: "length lens = length parameter_list"
    by (simp_all add: ids_def ms_def ss_def lens_def)
  have fst_res: "map fst res = map fst parameter_list"
  proof -
    have "map fst res = ids" by (simp add: res_def len_ids len_lens)
    also have "ids = map fst parameter_list" by (simp add: ids_def split_def)
    finally show ?thesis .
  qed
  have snd_res: "map snd res = unconcat lens new_pool"
    by (simp add: res_def len_ids len_lens)
  have len_res: "map (length \<circ> snd) res = map (\<lambda>(p, s, m). length m) parameter_list"
  proof -
    have "map length (map snd res) = lens"
      unfolding snd_res using sum_lens by (intro map_length_unconcat) simp
    then show ?thesis by (simp add: lens_def)
  qed
  have total: "num_active (concat ms) = total_active parameter_list"
    by (simp add: num_active_concat total_active_def ms_def comp_def split_def)
  have per_tensor: "map2 (\<lambda>(p, s, m) (q, m'). newly_pruned m m') parameter_list res =
        map2 newly_pruned ms (unconcat lens new_pool)"
  proof (rule nth_equalityI)
    show "length (map2 (\<lambda>(p, s, m) (q, m'). newly_pruned m m') parameter_list res) =
          length (map2 newly_pruned ms (unconcat lens new_pool))"
      by (simp add: res_def len_ids len_lens len_ms)
  next
    fix t
    assume "t < length (map2 (\<lambda>(p, s, m) (q, m'). newly_pruned m m') parameter_list res)"
    then have t: "t < length parameter_list"
      by simp
    then show "map2 (\<lambda>(p, s, m) (q, m'). newly_pruned m m') parameter_list res ! t =
          map2 newly_pruned ms (unconcat lens new_pool) ! t"
      by (simp add: res_def len_ids len_lens len_ms ms_def split_def)
  qed
  have exact: "sum_list (map2 (\<lambda>(p, s, m) (q, m'). newly_pruned m m') parameter_list res) =
        nat (py_round (a * of_nat (total_active parameter_list)))"
  proof -
    have "map length ms = map length (unconcat lens new_pool)"
      using sum_lens by (simp add: map_length_unconcat lens_ms)
    then have "newly_pruned (concat ms) (concat (unconcat lens new_pool)) =
        sum_list (map2 newly_pruned ms (unconcat lens new_pool))"
      by (rule newly_pruned_concat)
    then have "sum_list (map2 newly_pruned ms (unconcat lens new_pool)) =
        newly_pruned (concat ms) new_pool"
      using sum_lens by (simp add: concat_unconcat)
    then show ?thesis
      unfolding per_tensor using count total by simp
  qed
  have lowest: "\<forall>t<length parameter_list. \<forall>u<length parameter_list.
        \<forall>i<length (snd (snd (parameter_list ! t))). \<forall>j<length (snd (snd (parameter_list ! u))).
          snd (snd (parameter_list ! t)) ! i = 1 \<and> snd (res ! t) ! i = 0 \<and> snd (res ! u) ! j = 1 \<longrightarrow>
          score_fn (fst (snd (parameter_list ! t)) ! i) \<le> score_fn (fst (snd (parameter_list ! u)) ! j)"
  proof (intro allI impI)
    fix t u i j
    assume t: "t < length parameter_list" and u: "u < length parameter_list"
      and i: "i < length (snd (snd (parameter_list ! t)))"
      and j: "j < length (snd (snd (parameter_list ! u)))"
      and h: "snd (snd (parameter_list ! t)) ! i = 1 \<and> snd (res ! t) ! i = 0 \<and>
              snd (res ! u) ! j = 1"
    have at: "\<And>v k. v < length parameter_list \<Longrightarrow> k < length (snd (snd (parameter_list ! v))) \<Longrightarrow>
        sum_list (take v lens) + k < length (concat ms) \<and>
        concat ms ! (sum_list (take v lens) + k) = snd (snd (parameter_list ! v)) ! k \<and>
        concat ss ! (sum_list (take v lens) + k) = fst (snd (parameter_list ! v)) ! k \<and>
        new_pool ! (sum_list (take v lens) + k) = snd (res ! v) ! k"
    proof -
      fix v k
      assume v: "v < length parameter_list" and k: "k < length (snd (snd (parameter_list ! v)))"
      have msv: "ms ! v = snd (snd (parameter_list ! v))"
        and ssv: "ss ! v = fst (snd (parameter_list ! v))"
        using v by (simp_all add: ms_def ss_def split_def)
      have off_ms: "sum_list (map length (take v ms)) = sum_list (take v lens)"
        by (simp add: lens_ms take_map)
      have off_ss: "sum_list (map length (take v ss)) = sum_list (take v lens)"
        using lens_ss by (simp add: lens_ms take_map [symmetric])
      have kss: "k < length (ss ! v)"
        using k v lens_ss msv by (metis len_ss len_ms nth_map)
      have a1: "sum_list (take v lens) + k < length (concat ms) \<and>
          concat ms ! (sum_list (take v lens) + k) = snd (snd (parameter_list ! v)) ! k"
        using nth_concat_offset [of v ms k] v k msv off_ms len_ms by simp
      have a2: "concat ss ! (sum_list (take v lens) + k) = fst (snd (parameter_list ! v)) ! k"
        using nth_concat_offset [of v ss k] v kss ssv off_ss len_ss by simp
      have "k < lens ! v" using v k by (simp add: lens_def split_def)
      then have "unconcat lens new_pool ! v ! k = new_pool ! (sum_list (take v lens) + k)"
        using sum_lens v len_lens by (intro nth_unconcat) simp_all
      moreover have "snd (res ! v) = unconcat lens new_pool ! v"
        using v by (simp add: res_def len_ids len_lens)
      ultimately show "sum_list (take v lens) + k < length (concat ms) \<and>
        concat ms ! (sum_list (take v lens) + k) = snd (snd (parameter_list ! v)) ! k \<and>
        concat ss ! (sum_list (take v lens) + k) = fst (snd (parameter_list ! v)) ! k \<and>
        new_pool ! (sum_list (take v lens) + k) = snd (res ! v) ! k"
        using a1 a2 by simp
    qed
    show "score_fn (fst (snd (parameter_list ! t)) ! i) \<le> score_fn (fst (snd (parameter_list ! u)) ! j)"
      using low at [OF t i] at [OF u j] h by metis
  qed
  show ?thesis
    using result fst_res len_res exact lowest by blast
qed

theorem apply_global_exact_count_witness:
  "list_all (\<lambda>(p, s, m). length s = length m) two_tensors
   \<and> list_all (\<lambda>(p, s, m). length s = length m) other_partition
   \<and> (0::rat) \<le> 1 / 5 \<and> (1 / 5 :: rat) \<le> 1
   \<and> map (length \<circ> fst \<circ> snd) two_tensors = [4, 6]
   \<and> map (length \<circ> fst \<circ> snd) other_partition = [7, 3]
   \<and> apply_global two_tensors (1 / 5) abs =
       Inr ([(''conv'', [1, 0, 1, 1]), (''fc'', [1, 1, 1, 1, 0, 1])], [])
   \<and> sum_list (map2 (\<lambda>(p, s, m) (q, m'). newly_pruned m m') two_tensors
        [(''conv'', [1, 0, 1, 1]), (''fc'', [1, 1, 1, 1, 0, 1])]) = 2
   \<and> sum_list (map2 (\<lambda>(p, s, m) (q, m'). newly_pruned m m') other_partition
        [(''conv'', [1, 0, 1, 1, 1, 1, 1]), (''fc'', [1, 0, 1])]) = 2
   \<and> \<bar>fst (snd (two_tensors ! 0)) ! 1\<bar> \<le> \<bar>fst (snd (two_tensors ! 1)) ! 0\<bar>"
proof -
  have amount: "(0::rat) \<le> 1 / 5" "(1 / 5 :: rat) \<le> 1" by simp_all
  note T1 = apply_global_exact_count [OF two_tensors_shapes amount, of abs]
  note T2 = apply_global_exact_count [OF other_partition_shapes amount, of abs]
  obtain res1 ws1 where
    run1: "apply_global two_tensors (1 / 5) abs = Inr (res1, ws1)"
    and count1: "sum_list (map2 (\<lambda>(p, s, m) (q, m'). newly_pruned m m') two_tensors res1) =
        nat (py_round (1 / 5 * of_nat (total_active two_tensors)))"
    and low1: "\<forall>t<length two_tensors. \<forall>u<length two_tensors.
        \<forall>i<length (snd (snd (two_tensors ! t))). \<forall>j<length (snd (snd (two_tensors ! u))).
          snd (snd (two_tensors ! t)) ! i = 1 \<and> snd (res1 ! t) ! i = 0 \<and> snd (res1 ! u) ! j = 1 \<longrightarrow>
          \<bar>fst (snd (two_tensors ! t)) ! i\<bar> \<le> \<bar>fst (snd (two_tensors ! u)) ! j\<bar>"
    using T1 by blast
  obtain res2 ws2 where
    run2: "apply_global other_partition (1 / 5) abs = Inr (res2, ws2)"
    and count2: "sum_list (map2 (\<lambda>(p, s, m) (q, m'). newly_pruned m m') other_partition res2) =
        nat (py_round (1 / 5 * of_nat (total_active other_partition)))"
    using T2 by blast
  have r1: "res1 = [(''conv'', [1, 0, 1, 1]), (''fc'', [1, 1, 1, 1, 0, 1])]"
    using run1 two_tensors_run by simp
  have r2: "res2 = [(''conv'', [1, 0, 1, 1, 1, 1, 1]), (''fc'', [1, 0, 1])]"
    using run2 other_partition_run by simp
  have c1: "sum_list (map2 (\<lambda>(p, s, m) (q, m'). newly_pruned m m') two_tensors
        [(''conv'', [1, 0, 1, 1]), (''fc'', [1, 1, 1, 1, 0, 1])]) = 2"
    using count1 unfolding r1 total_active_two_tensors py_round_two .
  have c2: "sum_list (map2 (\<lambda>(p, s, m) (q, m'). newly_pruned m m') other_partition
        [(''conv'', [1, 0, 1, 1, 1, 1, 1]), (''fc'', [1, 0, 1])]) = 2"
    using count2 unfolding r2 total_active_other_partition py_round_two .
  have sizes: "map (length \<circ> fst \<circ> snd) two_tensors = [4, 6]"
    "map (length \<circ> fst \<circ> snd) other_partition = [7, 3]"
    by (simp_all add: two_tensors_def other_partition_def)
  have idx: "(0::nat) < length two_tensors" "(1::nat) < length two_tensors"
    "(1::nat) < length (snd (snd (two_tensors ! 0)))"
    "(0::nat) < length (snd (snd (two_tensors ! 1)))"
    by (simp_all add: two_tensors_def)
  have facts: "snd (snd (two_tensors ! 0)) ! 1 = 1" "snd (res1 ! 0) ! 1 = 0"
    "snd (res1 ! 1) ! 0 = 1"
    by (simp_all add: two_tensors_def r1)
  have l: "\<bar>fst (snd (two_tensors ! 0)) ! 1\<bar> \<le> \<bar>fst (snd (two_tensors ! 1)) ! 0\<bar>"
    using low1 idx facts by blast
  show ?thesis
    using two_tensors_shapes other_partition_shapes amount sizes two_tensors_run c1 c2 l
    by blast
qed

end
